theory Spec2Isabelle
  imports Complex_Main "HOL-Library.Multiset" "HOL-Library.Sublist"
begin

section \<open>TransformersSimilarityRanker: data model\<close>

text \<open>
  The component of \<^verbatim>\<open>haystack/components/rankers/transformers_similarity.py\<close>.
  Scores are Python floats; they are modelled as reals, so rounding and NaN are outside
  the model. Only the order and the equality of scores matter below.
\<close>

datatype error =
  ValueError_top_k
  | ValueError_calibration_factor
  | ValueError_multiple_devices
  | ComponentError_not_warmed_up
  | TypeError_tokenizer_is_None
  | IndexError

text \<open>
  The values a \<^verbatim>\<open>Document.meta\<close> dictionary holds, as far as the ranker looks at them:
  it tests their truth value and applies \<^verbatim>\<open>str\<close>.
\<close>

datatype pyval = VNone | VBool bool | VInt int | VStr string

fun truthy :: "pyval \<Rightarrow> bool" where
  "truthy VNone = False"
| "truthy (VBool b) = b"
| "truthy (VInt i) = (i \<noteq> 0)"
| "truthy (VStr s) = (s \<noteq> [])"

function str_nat :: "nat \<Rightarrow> string" where
  "str_nat n =
     (if n < 10 then [''0123456789'' ! n]
      else str_nat (n div 10) @ [''0123456789'' ! (n mod 10)])"
  by pat_completeness auto
termination
  by (relation "measure (\<lambda>n. n)") auto

declare str_nat.simps [simp del]

fun py_str :: "pyval \<Rightarrow> string" where
  "py_str VNone = ''None''"
| "py_str (VBool b) = (if b then ''True'' else ''False'')"
| "py_str (VInt i) = (if i < 0 then CHR ''-'' # str_nat (nat (- i)) else str_nat (nat i))"
| "py_str (VStr s) = s"

text \<open>
  \<^verbatim>\<open>Document\<close>: the fields the ranker reads (\<^verbatim>\<open>content\<close>, \<^verbatim>\<open>meta\<close>) and writes
  (\<^verbatim>\<open>score\<close>). The record is extensible, so every other field of the dataclass lives in
  the \<open>more\<close> part and statements over \<open>'a document_scheme\<close> cover it.
\<close>

record document =
  content :: "string option"
  meta :: "string \<rightharpoonup> pyval"
  score :: "real option"

text \<open>
  Documents are objects: the list handed to \<^verbatim>\<open>run\<close> holds references, and the same
  object may occur twice. A store maps each reference to the object's current value.
\<close>

type_synonym addr = nat
type_synonym 'a store = "addr \<Rightarrow> 'a document_scheme"

datatype token = TokNone | TokBool bool | TokStr string

record ('dev, 'kw) ranker =
  model :: string
  top_k :: int
  device :: 'dev
  query_prefix :: string
  document_prefix :: string
  token :: token
  warmed_up :: bool
  meta_fields_to_embed :: "string list"
  embedding_separator :: string
  scale_score :: bool
  calibration_factor :: "real option"
  score_threshold :: "real option"
  model_kwargs :: 'kw

section \<open>Construction and serialization\<close>

text \<open>
  \<^verbatim>\<open>__init__\<close>, given the resolved device. \<open>has_multiple_devices\<close> is the property of
  \<^verbatim>\<open>ComponentDevice\<close>, a class outside this file. \<^verbatim>\<open>meta_fields_to_embed or []\<close> maps
  \<^verbatim>\<open>None\<close> to the empty list; \<^verbatim>\<open>_model\<close> and \<^verbatim>\<open>tokenizer\<close> start as \<^verbatim>\<open>None\<close>, which is
  \<open>warmed_up = False\<close>.
\<close>

definition init ::
  "('dev \<Rightarrow> bool) \<Rightarrow> string \<Rightarrow> 'dev \<Rightarrow> token \<Rightarrow> int \<Rightarrow> string \<Rightarrow> string \<Rightarrow> string list option
     \<Rightarrow> string \<Rightarrow> bool \<Rightarrow> real option \<Rightarrow> real option \<Rightarrow> 'kw \<Rightarrow> error + ('dev, 'kw) ranker" where
  "init has_multiple_devices model' device' token' top_k' query_prefix' document_prefix'
      meta_fields_to_embed' embedding_separator' scale_score' calibration_factor'
      score_threshold' model_kwargs' =
     (if top_k' \<le> 0 then Inl ValueError_top_k
      else if scale_score' \<and> calibration_factor' = None then Inl ValueError_calibration_factor
      else if has_multiple_devices device' then Inl ValueError_multiple_devices
      else Inr \<lparr> model = model', top_k = top_k', device = device',
                 query_prefix = query_prefix', document_prefix = document_prefix',
                 token = token', warmed_up = False,
                 meta_fields_to_embed =
                   (case meta_fields_to_embed' of None \<Rightarrow> [] | Some fs \<Rightarrow> fs),
                 embedding_separator = embedding_separator',
                 scale_score = scale_score', calibration_factor = calibration_factor',
                 score_threshold = score_threshold', model_kwargs = model_kwargs' \<rparr>)"

text \<open>\<^verbatim>\<open>warm_up\<close> loads the model and the tokenizer once.\<close>

definition warm_up :: "('dev, 'kw) ranker \<Rightarrow> ('dev, 'kw) ranker" where
  "warm_up r = (if \<not> warmed_up r then r\<lparr>warmed_up := True\<rparr> else r)"

text \<open>
  The dictionary \<^verbatim>\<open>to_dict\<close> returns: \<^verbatim>\<open>default_to_dict\<close> (outside this file) wraps the
  keyword arguments it is given under the key \<^verbatim>\<open>init_parameters\<close>, as the lookups
  \<^verbatim>\<open>serialization_dict["init_parameters"]["model_kwargs"]\<close> and
  \<^verbatim>\<open>data["init_parameters"]\<close> of this file show.
\<close>

record ('dd, 'kw) init_parameters =
  ip_device :: 'dd
  ip_model :: string
  ip_token :: token
  ip_top_k :: int
  ip_query_prefix :: string
  ip_document_prefix :: string
  ip_meta_fields_to_embed :: "string list"
  ip_embedding_separator :: string
  ip_scale_score :: bool
  ip_calibration_factor :: "real option"
  ip_score_threshold :: "real option"
  ip_model_kwargs :: 'kw

text \<open>
  \<open>device_to_dict\<close> and \<open>serialize_hf_model_kwargs\<close> are the helpers of other modules;
  the second one rewrites the \<^verbatim>\<open>model_kwargs\<close> dictionary only.
\<close>

definition to_dict ::
  "('dev \<Rightarrow> 'dd) \<Rightarrow> ('kw \<Rightarrow> 'kw) \<Rightarrow> ('dev, 'kw) ranker \<Rightarrow> ('dd, 'kw) init_parameters" where
  "to_dict device_to_dict serialize_hf_model_kwargs r =
     (let serialization_dict =
        \<lparr> ip_device = device_to_dict (device r),
          ip_model = model r,
          ip_token = (case token r of TokStr s \<Rightarrow> TokNone | t \<Rightarrow> t),
          ip_top_k = top_k r,
          ip_query_prefix = query_prefix r,
          ip_document_prefix = document_prefix r,
          ip_meta_fields_to_embed = meta_fields_to_embed r,
          ip_embedding_separator = embedding_separator r,
          ip_scale_score = scale_score r,
          ip_calibration_factor = calibration_factor r,
          ip_score_threshold = score_threshold r,
          ip_model_kwargs = model_kwargs r \<rparr>
      in serialization_dict\<lparr> ip_model_kwargs :=
           serialize_hf_model_kwargs (ip_model_kwargs serialization_dict) \<rparr>)"

section \<open>run\<close>

subsection \<open>Per-call overrides\<close>

text \<open>
  \<^verbatim>\<open>top_k = top_k or self.top_k\<close>, \<^verbatim>\<open>scale_score = scale_score or self.scale_score\<close> and
  \<^verbatim>\<open>calibration_factor = calibration_factor or self.calibration_factor\<close>: Python's
  \<^verbatim>\<open>or\<close> yields its right operand whenever the left one is falsy (\<^verbatim>\<open>None\<close>, \<^verbatim>\<open>0\<close>,
  \<^verbatim>\<open>0.0\<close>, \<^verbatim>\<open>False\<close>). The threshold is replaced only when it \<^verbatim>\<open>is None\<close>.
\<close>

definition effective_top_k :: "('dev, 'kw) ranker \<Rightarrow> int option \<Rightarrow> int" where
  "effective_top_k r top_k' =
     (case top_k' of None \<Rightarrow> top_k r | Some k \<Rightarrow> if k = 0 then top_k r else k)"

definition effective_scale_score :: "('dev, 'kw) ranker \<Rightarrow> bool option \<Rightarrow> bool" where
  "effective_scale_score r scale_score' =
     (case scale_score' of None \<Rightarrow> scale_score r | Some b \<Rightarrow> if b then True else scale_score r)"

definition effective_calibration_factor ::
  "('dev, 'kw) ranker \<Rightarrow> real option \<Rightarrow> real option" where
  "effective_calibration_factor r calibration_factor' =
     (case calibration_factor' of
        None \<Rightarrow> calibration_factor r
      | Some c \<Rightarrow> if c = 0 then calibration_factor r else Some c)"

definition effective_score_threshold ::
  "('dev, 'kw) ranker \<Rightarrow> real option \<Rightarrow> real option" where
  "effective_score_threshold r score_threshold' =
     (case score_threshold' of None \<Rightarrow> score_threshold r | Some t \<Rightarrow> Some t)"

subsection \<open>Query/document pairs\<close>

text \<open>\<^verbatim>\<open>sep.join(strings)\<close>.\<close>

fun join :: "string \<Rightarrow> string list \<Rightarrow> string" where
  "join sep [] = []"
| "join sep [x] = x"
| "join sep (x # y # ys) = x @ sep @ join sep (y # ys)"

text \<open>
  \<^verbatim>\<open>[str(doc.meta[key]) for key in self.meta_fields_to_embed
      if key in doc.meta and doc.meta[key]]\<close>
\<close>

definition meta_values_to_embed ::
  "('dev, 'kw) ranker \<Rightarrow> 'a document_scheme \<Rightarrow> string list" where
  "meta_values_to_embed r doc =
     [py_str (the (meta doc key)).
        key \<leftarrow> meta_fields_to_embed r,
        (case meta doc key of None \<Rightarrow> False | Some v \<Rightarrow> truthy v)]"

text \<open>
  \<^verbatim>\<open>self.embedding_separator.join(meta_values_to_embed + [doc.content or ""])\<close>:
  \<^verbatim>\<open>doc.content or ""\<close> is the empty string for \<^verbatim>\<open>None\<close> and for the empty string.
\<close>

definition text_to_embed :: "('dev, 'kw) ranker \<Rightarrow> 'a document_scheme \<Rightarrow> string" where
  "text_to_embed r doc =
     join (embedding_separator r)
       (meta_values_to_embed r doc @
          [case content doc of None \<Rightarrow> [] | Some c \<Rightarrow> if c = [] then [] else c])"

text \<open>The loop that appends one pair per document to \<^verbatim>\<open>query_doc_pairs\<close>.\<close>

fun query_doc_pairs ::
  "('dev, 'kw) ranker \<Rightarrow> string \<Rightarrow> 'a store \<Rightarrow> addr list \<Rightarrow> (string \<times> string) list
     \<Rightarrow> (string \<times> string) list" where
  "query_doc_pairs r query h [] acc = acc"
| "query_doc_pairs r query h (doc # documents) acc =
     query_doc_pairs r query h documents
       (acc @ [(query_prefix r @ query, document_prefix r @ text_to_embed r (h doc))])"

subsection \<open>Scoring, sorting, ranking\<close>

definition sigmoid :: "real \<Rightarrow> real" where
  "sigmoid x = 1 / (1 + exp (- x))"

text \<open>
  The tokenizer and the cross-encoder belong to the external runtime. Together they turn
  every pair of texts into one logit; the model takes that map as the parameter \<open>logit\<close>.
  The scores are the logits, passed through \<^verbatim>\<open>torch.sigmoid(scores * calibration_factor)\<close>
  when \<^verbatim>\<open>scale_score\<close> holds.
\<close>

definition similarity_scores ::
  "(string \<Rightarrow> string \<Rightarrow> real) \<Rightarrow> (string \<times> string) list \<Rightarrow> bool \<Rightarrow> real option \<Rightarrow> real list" where
  "similarity_scores logit pairs scale_score' calibration_factor' =
     (let logits = map (\<lambda>(q, d). logit q d) pairs
      in if scale_score' then map (\<lambda>x. sigmoid (x * the calibration_factor')) logits
         else logits)"

text \<open>
  The loop over \<^verbatim>\<open>sorted_indices\<close>: it stores the score in the document object and
  appends the object to \<^verbatim>\<open>ranked_docs\<close>. An index outside the list raises.
\<close>

fun rank_documents ::
  "'a store \<Rightarrow> addr list \<Rightarrow> real list \<Rightarrow> nat list \<Rightarrow> addr list \<Rightarrow> error + ('a store \<times> addr list)" where
  "rank_documents h documents scores [] ranked_docs = Inr (h, ranked_docs)"
| "rank_documents h documents scores (i # sorted_indices) ranked_docs =
     (if i < length scores \<and> i < length documents then
        rank_documents
          (h((documents ! i) := (h (documents ! i))\<lparr>score := Some (scores ! i)\<rparr>))
          documents scores sorted_indices (ranked_docs @ [documents ! i])
      else Inl IndexError)"

text \<open>
  \<^verbatim>\<open>doc.score >= score_threshold\<close>. Every ranked document has just been given a score,
  so the comparison never meets \<^verbatim>\<open>None\<close>.
\<close>

definition score_ge :: "'a store \<Rightarrow> real \<Rightarrow> addr \<Rightarrow> bool" where
  "score_ge h t doc = (case score (h doc) of None \<Rightarrow> False | Some s \<Rightarrow> t \<le> s)"

text \<open>
  \<^verbatim>\<open>if score_threshold is not None:
      ranked_docs = [doc for doc in ranked_docs if doc.score >= score_threshold]\<close>
\<close>

definition threshold_filter :: "'a store \<Rightarrow> real option \<Rightarrow> addr list \<Rightarrow> addr list" where
  "threshold_filter h score_threshold' ranked_docs =
     (case score_threshold' of
        None \<Rightarrow> ranked_docs
      | Some t \<Rightarrow> filter (score_ge h t) ranked_docs)"

text \<open>
  \<^verbatim>\<open>run\<close>. \<open>torch_sort\<close> is \<^verbatim>\<open>torch.sort(scores, descending=True)\<close>, of which the code
  keeps the indices; it is a parameter, like \<open>logit\<close>. The result is the store after the
  call together with the returned list of documents, or the exception raised.
\<close>

definition run ::
  "('dev, 'kw) ranker \<Rightarrow> (real list \<Rightarrow> nat list) \<Rightarrow> (string \<Rightarrow> string \<Rightarrow> real) \<Rightarrow> 'a store
     \<Rightarrow> string \<Rightarrow> addr list \<Rightarrow> int option \<Rightarrow> bool option \<Rightarrow> real option \<Rightarrow> real option
     \<Rightarrow> error + ('a store \<times> addr list)" where
  "run r torch_sort logit h query documents top_k' scale_score' calibration_factor'
      score_threshold' =
     (if documents = [] then Inr (h, [])
      else if effective_top_k r top_k' \<le> 0 then Inl ValueError_top_k
      else if effective_scale_score r scale_score'
              \<and> effective_calibration_factor r calibration_factor' = None
        then Inl ValueError_calibration_factor
      else if model r \<noteq> [] \<and> \<not> warmed_up r then Inl ComponentError_not_warmed_up
      else if \<not> warmed_up r then Inl TypeError_tokenizer_is_None
      else
        let scores = similarity_scores logit (query_doc_pairs r query h documents [])
                       (effective_scale_score r scale_score')
                       (effective_calibration_factor r calibration_factor')
        in case rank_documents h documents scores (torch_sort scores) [] of
             Inl e \<Rightarrow> Inl e
           | Inr (h', ranked_docs) \<Rightarrow>
               Inr (h', take (nat (effective_top_k r top_k'))
                          (threshold_filter h' (effective_score_threshold r score_threshold')
                             ranked_docs)))"

text \<open>
  What the caller reads off the result: the returned documents, each with the score its
  object now holds, or the exception.
\<close>

definition returned :: "error + ('a store \<times> addr list) \<Rightarrow> error + (addr \<times> real option) list" where
  "returned res = map_sum id (\<lambda>(h', out). map (\<lambda>a. (a, score (h' a))) out) res"

section \<open>Specification vocabulary\<close>

text \<open>
  What \<^verbatim>\<open>torch.sort(xs, descending=True)\<close> promises about the indices it returns: they
  are a permutation of the positions of \<open>xs\<close>, and the values at them descend.
\<close>

definition is_argsort_desc :: "real list \<Rightarrow> nat list \<Rightarrow> bool" where
  "is_argsort_desc xs idxs =
     (mset idxs = mset [0..<length xs] \<and> sorted_wrt (\<lambda>i j. xs ! j \<le> xs ! i) idxs)"

definition sorts_descending :: "(real list \<Rightarrow> nat list) \<Rightarrow> bool" where
  "sorts_descending torch_sort = (\<forall>xs. is_argsort_desc xs (torch_sort xs))"

text \<open>
  A stable sort moreover keeps equal values in the order of their positions; torch
  promises this only for \<^verbatim>\<open>stable=True\<close>, which \<^verbatim>\<open>run\<close> does not pass.
\<close>

definition is_stable_argsort_desc :: "real list \<Rightarrow> nat list \<Rightarrow> bool" where
  "is_stable_argsort_desc xs idxs =
     (is_argsort_desc xs idxs \<and> sorted_wrt (\<lambda>i j. xs ! i = xs ! j \<longrightarrow> i < j) idxs)"

definition sorts_stably :: "(real list \<Rightarrow> nat list) \<Rightarrow> bool" where
  "sorts_stably torch_sort = (\<forall>xs. is_stable_argsort_desc xs (torch_sort xs))"

text \<open>
  Two sorts that keep the promise: an insertion sort of the positions, which is stable,
  and the same sort started from the reversed positions, which returns equal values in
  reverse order.
\<close>

definition stable_argsort_desc :: "real list \<Rightarrow> nat list" where
  "stable_argsort_desc xs = sort_key (\<lambda>i. - (xs ! i)) [0..<length xs]"

definition tie_reversing_argsort_desc :: "real list \<Rightarrow> nat list" where
  "tie_reversing_argsort_desc xs = sort_key (\<lambda>i. - (xs ! i)) (rev [0..<length xs])"

text \<open>
  The score of one document: the entry of \<open>similarity_scores\<close> at the document's position
  (lemma \<open>similarity_scores_map\<close> below).
\<close>

definition doc_score ::
  "('dev, 'kw) ranker \<Rightarrow> (string \<Rightarrow> string \<Rightarrow> real) \<Rightarrow> string \<Rightarrow> bool \<Rightarrow> real option
     \<Rightarrow> 'a document_scheme \<Rightarrow> real" where
  "doc_score r logit query scale_score' calibration_factor' doc =
     (let x = logit (query_prefix r @ query) (document_prefix r @ text_to_embed r doc)
      in if scale_score' then sigmoid (x * the calibration_factor') else x)"

text \<open>
  The calls on which \<^verbatim>\<open>run\<close> raises nothing of its own: an empty list returns at once;
  otherwise the effective \<^verbatim>\<open>top_k\<close> is positive, scaling has its factor and the model is
  loaded.
\<close>

definition run_ok ::
  "('dev, 'kw) ranker \<Rightarrow> addr list \<Rightarrow> int option \<Rightarrow> bool option \<Rightarrow> real option \<Rightarrow> bool" where
  "run_ok r documents top_k' scale_score' calibration_factor' =
     (documents = [] \<or>
      (0 < effective_top_k r top_k'
       \<and> (effective_scale_score r scale_score' \<longrightarrow>
            effective_calibration_factor r calibration_factor' \<noteq> None)
       \<and> warmed_up r))"

text \<open>The store in which every listed document carries the score \<open>g\<close> gives it.\<close>

definition scored :: "'a store \<Rightarrow> addr list \<Rightarrow> (addr \<Rightarrow> real) \<Rightarrow> 'a store" where
  "scored h documents g =
     (\<lambda>a. if a \<in> set documents then (h a)\<lparr>score := Some (g a)\<rparr> else h a)"

text \<open>One step of the ranking loop on the store.\<close>

definition assign_score :: "addr list \<Rightarrow> real list \<Rightarrow> nat \<Rightarrow> 'a store \<Rightarrow> 'a store" where
  "assign_score documents scores i h =
     h((documents ! i) := (h (documents ! i))\<lparr>score := Some (scores ! i)\<rparr>)"

section \<open>A concrete ranker\<close>

text \<open>
  The ranker of the class's usage example, warmed up, with two meta fields to embed;
  three documents; and a scoring map that prefers Berlin.
\<close>

definition example_ranker :: "(unit, unit) ranker" where
  "example_ranker =
     \<lparr> model = ''cross-encoder/ms-marco-MiniLM-L-6-v2'', top_k = 10, device = (),
       query_prefix = [], document_prefix = [], token = TokStr ''hf_secret'',
       warmed_up = True, meta_fields_to_embed = [''title'', ''year''],
       embedding_separator = [CHR 0x0A], scale_score = True,
       calibration_factor = Some 1, score_threshold = None, model_kwargs = () \<rparr>"

definition example_store :: "unit store" where
  "example_store =
     (\<lambda>a. if a = 0 then \<lparr> content = Some ''Paris'', meta = Map.empty, score = None \<rparr>
          else if a = 1 then \<lparr> content = Some ''Berlin'', meta = Map.empty, score = Some 0 \<rparr>
          else \<lparr> content = Some ''Munich'',
                 meta = [''title'' \<mapsto> VStr ''Bavaria'', ''year'' \<mapsto> VInt 0],
                 score = None \<rparr>)"

definition example_logit :: "string \<Rightarrow> string \<Rightarrow> real" where
  "example_logit q d = (if d = ''Berlin'' then 8 else if d = ''Paris'' then - 3 else 2)"

definition constant_logit :: "string \<Rightarrow> string \<Rightarrow> real" where
  "constant_logit q d = 0"

section \<open>Specification vocabulary for the text pairs and for repeated calls\<close>

text \<open>
  The text of a document as the documentation words it: the values of the configured
  meta fields that the document's \<^verbatim>\<open>meta\<close> holds and that are truthy, as strings, then the
  content (the empty string for \<^verbatim>\<open>None\<close>), joined by the separator. This definition
  follows the description; \<open>text_to_embed\<close> above follows the code.
\<close>

definition embedded_meta_values :: "string list \<Rightarrow> (string \<rightharpoonup> pyval) \<Rightarrow> pyval list" where
  "embedded_meta_values keys m = filter truthy (List.map_filter m keys)"

definition spec_text :: "('dev, 'kw) ranker \<Rightarrow> 'a document_scheme \<Rightarrow> string" where
  "spec_text r doc =
     join (embedding_separator r)
       (map py_str (embedded_meta_values (meta_fields_to_embed r) (meta doc))
          @ [case content doc of None \<Rightarrow> [] | Some c \<Rightarrow> c])"

text \<open>
  Two stores hold equal inputs for a call when the listed documents have the same content
  and the same meta in both; the scores left by earlier calls, and every other field, may
  differ.
\<close>

definition same_texts :: "'a store \<Rightarrow> 'b store \<Rightarrow> addr list \<Rightarrow> bool" where
  "same_texts h1 h2 documents =
     (map (\<lambda>a. (content (h1 a), meta (h1 a))) documents =
      map (\<lambda>a. (content (h2 a), meta (h2 a))) documents)"

text \<open>The example documents after some earlier ranking has given each of them a score.\<close>

definition example_store_rescored :: "unit store" where
  "example_store_rescored = (\<lambda>a. (example_store a)\<lparr>score := Some 7\<rparr>)"

section \<open>Lemmas about the loops, the sort and the result of run\<close>

lemma query_doc_pairs_acc:
  "query_doc_pairs r query h documents acc =
     acc @ map (\<lambda>doc. (query_prefix r @ query, document_prefix r @ text_to_embed r (h doc))) documents"
  by (induction documents arbitrary: acc) simp_all

lemma similarity_scores_map:
  "similarity_scores logit (query_doc_pairs r query h documents []) sc cf =
     map (\<lambda>doc. doc_score r logit query sc cf (h doc)) documents"
  by (simp add: similarity_scores_def query_doc_pairs_acc doc_score_def Let_def comp_def)

lemma rank_documents_fold:
  "\<forall>i \<in> set idxs. i < length scores \<and> i < length documents \<Longrightarrow>
   rank_documents h documents scores idxs acc =
     Inr (fold (assign_score documents scores) idxs h, acc @ map ((!) documents) idxs)"
  by (induction idxs arbitrary: h acc) (simp_all add: assign_score_def)

lemma fold_assign_score:
  assumes "\<forall>i \<in> set idxs. i < length documents"
  shows "fold (assign_score documents (map g documents)) idxs h =
     (\<lambda>a. if a \<in> (!) documents ` set idxs then (h a)\<lparr>score := Some (g a)\<rparr> else h a)"
  using assms
proof (induction idxs arbitrary: h)
  case Nil
  then show ?case by simp
next
  case (Cons i idxs)
  then show ?case
    by (auto simp: assign_score_def fun_eq_iff)
qed

lemma is_argsort_desc_set:
  "is_argsort_desc xs idxs \<Longrightarrow> set idxs = {0..<length xs}"
  by (metis is_argsort_desc_def mset_eq_setD set_upt)

lemma stable_sorts: "sorts_descending stable_argsort_desc"
  unfolding sorts_descending_def is_argsort_desc_def stable_argsort_desc_def
  apply (intro allI conjI)
   apply simp
  using sorted_sort_key[of "\<lambda>i. - (xs ! i)" "[0..<length xs]" for xs :: "real list"]
  apply (simp add: sorted_map)
  done

lemma nth_image_argsort:
  assumes "is_argsort_desc (map g documents) idxs"
  shows "(!) documents ` set idxs = set documents"
proof -
  have "set idxs = {0..<length documents}"
    using is_argsort_desc_set [OF assms] by simp
  then show ?thesis
    using nth_image [of "length documents" documents] by simp
qed

lemma run_nonempty:
  fixes r :: "('dev, 'kw) ranker" and h :: "'a store"
    and logit :: "string \<Rightarrow> string \<Rightarrow> real" and query :: string
    and tk ss cf
  assumes srt: "sorts_descending torch_sort"
    and ne: "documents \<noteq> []"
    and k: "0 < effective_top_k r tk"
    and c: "effective_scale_score r ss \<longrightarrow> effective_calibration_factor r cf \<noteq> None"
    and w: "warmed_up r"
  defines "g \<equiv> \<lambda>a. doc_score r logit query (effective_scale_score r ss)
                        (effective_calibration_factor r cf) (h a)"
  shows "run r torch_sort logit h query documents tk ss cf th =
     Inr (scored h documents g,
          take (nat (effective_top_k r tk))
            (threshold_filter (scored h documents g) (effective_score_threshold r th)
               (map ((!) documents) (torch_sort (map g documents)))))"
proof -
  let ?scores = "map g documents"
  let ?idxs = "torch_sort ?scores"
  have sc: "similarity_scores logit (query_doc_pairs r query h documents [])
              (effective_scale_score r ss) (effective_calibration_factor r cf) = ?scores"
    by (simp add: similarity_scores_map g_def)
  have a: "is_argsort_desc ?scores ?idxs"
    using srt by (simp add: sorts_descending_def)
  have bound: "\<forall>i \<in> set ?idxs. i < length ?scores \<and> i < length documents"
    using is_argsort_desc_set [OF a] by simp
  have bound': "\<forall>i \<in> set ?idxs. i < length documents"
    using bound by simp
  have st: "fold (assign_score documents ?scores) ?idxs h = scored h documents g"
    unfolding fold_assign_score [OF bound'] nth_image_argsort [OF a] scored_def ..
  have rk: "rank_documents h documents ?scores ?idxs [] =
      Inr (scored h documents g, map ((!) documents) ?idxs)"
    using rank_documents_fold [OF bound, of h "[]"] st by simp
  show ?thesis
    unfolding run_def sc Let_def rk threshold_filter_def
    using ne k c w by simp
qed

lemma run_empty: "run r torch_sort logit h query [] tk ss cf th = Inr (h, [])"
  by (simp add: run_def)

lemma run_Inr_ok:
  "run r torch_sort logit h query documents tk ss cf th = Inr res \<Longrightarrow> run_ok r documents tk ss cf"
  by (auto simp: run_def run_ok_def split: if_splits)

lemma tie_reversing_sorts: "sorts_descending tie_reversing_argsort_desc"
proof -
  have "sorted_wrt (\<lambda>i j. xs ! j \<le> xs ! i) (sort_key (\<lambda>i. - (xs ! i)) (rev [0..<length xs]))"
    for xs :: "real list"
    using sorted_sort_key [of "\<lambda>i. - (xs ! i)" "rev [0..<length xs]"]
    by (simp add: sorted_map)
  then show ?thesis
    by (simp add: sorts_descending_def is_argsort_desc_def tie_reversing_argsort_desc_def)
qed

lemma insort_key_tie_order:
  fixes f :: "nat \<Rightarrow> real"
  assumes "sorted_wrt (\<lambda>i j. f i = f j \<longrightarrow> i < j) ys" and "\<forall>y \<in> set ys. x < y"
  shows "sorted_wrt (\<lambda>i j. f i = f j \<longrightarrow> i < j) (insort_key f x ys)"
  using assms by (induction ys) (auto simp: set_insort_key)

lemma sort_key_tie_order:
  fixes f :: "nat \<Rightarrow> real"
  assumes "sorted_wrt (<) xs"
  shows "sorted_wrt (\<lambda>i j. f i = f j \<longrightarrow> i < j) (sort_key f xs)"
  using assms by (induction xs) (auto intro: insort_key_tie_order)

lemma stable_sorts_stably: "sorts_stably stable_argsort_desc"
proof -
  have "sorted_wrt (\<lambda>i j. xs ! i = xs ! j \<longrightarrow> i < j) (stable_argsort_desc xs)" for xs :: "real list"
    using sort_key_tie_order [of "[0..<length xs]" "\<lambda>i. - (xs ! i)"]
    by (simp add: stable_argsort_desc_def)
  then show ?thesis
    using stable_sorts by (simp add: sorts_stably_def is_stable_argsort_desc_def sorts_descending_def)
qed

lemma sorts_stably_descending: "sorts_stably torch_sort \<Longrightarrow> sorts_descending torch_sort"
  by (simp add: sorts_stably_def sorts_descending_def is_stable_argsort_desc_def)

lemma mset_ranked:
  assumes "is_argsort_desc (map g documents) idxs"
  shows "mset (map ((!) documents) idxs) = mset documents"
proof -
  have "mset (map ((!) documents) idxs) = image_mset ((!) documents) (mset idxs)"
    by simp
  also have "\<dots> = image_mset ((!) documents) (mset [0..<length documents])"
    using assms by (simp add: is_argsort_desc_def)
  also have "\<dots> = mset (map ((!) documents) [0..<length documents])"
    by simp
  also have "\<dots> = mset documents"
    by (simp add: map_nth)
  finally show ?thesis .
qed

lemma sorted_ranked:
  assumes "is_argsort_desc (map g documents) idxs"
  shows "sorted_wrt (\<lambda>a b. g b \<le> g a) (map ((!) documents) idxs)"
proof -
  have bound: "\<forall>i \<in> set idxs. i < length documents"
    using is_argsort_desc_set [OF assms] by simp
  have "sorted_wrt (\<lambda>i j. map g documents ! j \<le> map g documents ! i) idxs"
    using assms by (simp add: is_argsort_desc_def)
  then have "sorted_wrt (\<lambda>i j. g (documents ! j) \<le> g (documents ! i)) idxs"
    using bound by (auto elim!: sorted_wrt_mono_rel [rotated])
  then show ?thesis
    by (simp add: sorted_wrt_map)
qed

lemma stable_filter_eq:
  assumes "is_stable_argsort_desc xs idxs"
  shows "filter (\<lambda>i. xs ! i = s) idxs = filter (\<lambda>i. xs ! i = s) [0..<length xs]"
proof -
  let ?P = "\<lambda>i. xs ! i = s"
  have "sorted_wrt (\<lambda>i j. xs ! i = xs ! j \<longrightarrow> i < j) (filter ?P idxs)"
    using assms by (simp add: is_stable_argsort_desc_def sorted_wrt_filter)
  then have l: "sorted_wrt (<) (filter ?P idxs)"
    by (auto elim!: sorted_wrt_mono_rel [rotated])
  have r: "sorted_wrt (<) (filter ?P [0..<length xs])"
    by (simp add: sorted_wrt_filter)
  have "set idxs = {0..<length xs}"
    using assms by (simp add: is_stable_argsort_desc_def is_argsort_desc_set)
  then have "set (filter ?P idxs) = set (filter ?P [0..<length xs])"
    by simp
  then show ?thesis
    using l r by (simp add: strict_sorted_equal)
qed

lemma run_cases:
  fixes r :: "('dev, 'kw) ranker" and h :: "'a store"
    and logit :: "string \<Rightarrow> string \<Rightarrow> real" and query :: string
    and tk ss cf
  assumes srt: "sorts_descending torch_sort" and ok: "run_ok r documents tk ss cf"
  defines "g \<equiv> \<lambda>a. doc_score r logit query (effective_scale_score r ss)
                        (effective_calibration_factor r cf) (h a)"
  obtains (empty) "documents = []"
      "run r torch_sort logit h query documents tk ss cf th = Inr (h, [])"
    | (ranked) "documents \<noteq> []" "0 < effective_top_k r tk"
      "effective_scale_score r ss \<longrightarrow> effective_calibration_factor r cf \<noteq> None"
      "is_argsort_desc (map g documents) (torch_sort (map g documents))"
      "run r torch_sort logit h query documents tk ss cf th =
         Inr (scored h documents g,
              take (nat (effective_top_k r tk))
                (threshold_filter (scored h documents g) (effective_score_threshold r th)
                   (map ((!) documents) (torch_sort (map g documents)))))"
proof (cases "documents = []")
  case True
  then show ?thesis using empty run_empty by blast
next
  case False
  with ok have *: "0 < effective_top_k r tk"
    "effective_scale_score r ss \<longrightarrow> effective_calibration_factor r cf \<noteq> None" "warmed_up r"
    by (simp_all add: run_ok_def)
  have "is_argsort_desc (map g documents) (torch_sort (map g documents))"
    using srt by (simp add: sorts_descending_def)
  then show ?thesis
    using ranked [OF False *(1,2)] run_nonempty [OF srt False *, where logit = logit and query = query and th = th and h = h]
    by (simp add: g_def)
qed

lemma score_scored:
  "a \<in> set documents \<Longrightarrow> score (scored h documents g a) = Some (g a)"
  by (simp add: scored_def)

lemma set_threshold_filter: "set (threshold_filter h th xs) \<subseteq> set xs"
  by (auto simp: threshold_filter_def split: option.splits)

lemma sorted_wrt_threshold_filter:
  "sorted_wrt P xs \<Longrightarrow> sorted_wrt P (threshold_filter h th xs)"
  by (auto simp: threshold_filter_def sorted_wrt_filter split: option.splits)

lemma mset_threshold_filter: "mset (threshold_filter h th xs) \<subseteq># mset xs"
  by (auto simp: threshold_filter_def split: option.splits)

lemma mset_take_subset: "mset (take n xs) \<subseteq># mset xs"
  by (metis append_take_drop_id mset_append mset_subset_eq_add_left)

lemma sigmoid_le_iff [simp]: "sigmoid x \<le> sigmoid y \<longleftrightarrow> x \<le> y"
proof -
  have "0 < 1 + exp (- x)" "0 < 1 + exp (- y)"
    by (simp_all add: add_pos_pos)
  then show ?thesis
    by (simp add: sigmoid_def frac_le_eq zero_less_mult_iff field_simps)
qed

lemma sigmoid_zero [simp]: "sigmoid 0 = 1 / 2"
  by (simp add: sigmoid_def)

lemmas example_defs = example_ranker_def example_store_def example_logit_def
  effective_top_k_def effective_scale_score_def effective_calibration_factor_def
  effective_score_threshold_def

lemma example_run: "returned (run example_ranker stable_argsort_desc example_logit example_store ''city'' [0, 1, 2] None None None None) = Inr [(1, Some (sigmoid 8)), (2, Some (sigmoid 2)), (0, Some (sigmoid (- 3)))]"
  apply (subst run_nonempty [OF stable_sorts])
  apply (simp_all add: example_ranker_def effective_top_k_def effective_scale_score_def effective_calibration_factor_def)
  apply (simp add: returned_def scored_def threshold_filter_def effective_score_threshold_def doc_score_def example_logit_def example_store_def text_to_embed_def meta_values_to_embed_def stable_argsort_desc_def upt_rec)
  done

lemma example_top_1_run:
  "returned (run example_ranker stable_argsort_desc example_logit example_store ''city''
               [0, 1, 2] (Some 1) None None None)
     = Inr [(1, Some (sigmoid 8))]"
  apply (subst run_nonempty [OF stable_sorts])
      apply (simp_all add: example_ranker_def effective_top_k_def effective_scale_score_def
        effective_calibration_factor_def)
  apply (simp add: returned_def scored_def threshold_filter_def effective_score_threshold_def
      doc_score_def example_logit_def example_store_def text_to_embed_def
      meta_values_to_embed_def stable_argsort_desc_def upt_rec)
  done

section \<open>The claims\<close>



subsection \<open>Ties\<close>

lemma prefix_filter_take: "prefix (filter P (take n xs)) (filter P xs)"
  by (simp add: filter_mono_prefix take_is_prefix)

lemma filter_score_threshold_filter:
  "prefix (filter (\<lambda>a. score (h a) = Some s) (threshold_filter h th xs))
     (filter (\<lambda>a. score (h a) = Some s) xs)"
proof (cases th)
  case None
  then show ?thesis by (simp add: threshold_filter_def)
next
  case (Some t)
  have "filter (\<lambda>a. score (h a) = Some s) (filter (score_ge h t) xs) =
      (if t \<le> s then filter (\<lambda>a. score (h a) = Some s) xs else [])"
    by (induction xs) (auto simp: score_ge_def)
  with Some show ?thesis by (simp add: threshold_filter_def)
qed

lemma filter_score_ranked:
  assumes "is_stable_argsort_desc (map g documents) idxs"
  shows "filter (\<lambda>a. score (scored h documents g a) = Some s) (map ((!) documents) idxs) =
     filter (\<lambda>a. score (scored h documents g a) = Some s) documents"
proof -
  let ?Q = "\<lambda>a. score (scored h documents g a) = Some s"
  have set: "set idxs = {0..<length documents}"
    using assms is_argsort_desc_set [of "map g documents" idxs]
    by (simp add: is_stable_argsort_desc_def)
  have Q: "?Q (documents ! i) \<longleftrightarrow> map g documents ! i = s" if "i < length documents" for i
    using that by (simp add: scored_def)
  have "filter ?Q (map ((!) documents) idxs) =
      map ((!) documents) (filter (\<lambda>i. ?Q (documents ! i)) idxs)"
    by (simp add: filter_map comp_def)
  also have "filter (\<lambda>i. ?Q (documents ! i)) idxs = filter (\<lambda>i. map g documents ! i = s) idxs"
    using set Q by (intro filter_cong refl) auto
  also have "\<dots> = filter (\<lambda>i. map g documents ! i = s) [0..<length (map g documents)]"
    by (rule stable_filter_eq [OF assms])
  also have "\<dots> = filter (\<lambda>i. ?Q (documents ! i)) [0..<length documents]"
    using Q by (intro filter_cong) auto
  also have "map ((!) documents) \<dots> = filter ?Q (map ((!) documents) [0..<length documents])"
    by (simp add: filter_map comp_def)
  also have "\<dots> = filter ?Q documents"
    by (simp add: map_nth)
  finally show ?thesis .
qed

lemma example_tie_run: "returned (run example_ranker tie_reversing_argsort_desc constant_logit example_store
               ''city'' [0, 1] None None None None) = Inr [(1, Some (1 / 2)), (0, Some (1 / 2))]"
  apply (subst run_nonempty [OF tie_reversing_sorts])
  apply (simp_all add: example_ranker_def effective_top_k_def effective_scale_score_def effective_calibration_factor_def)
  apply (simp add: returned_def scored_def threshold_filter_def effective_score_threshold_def doc_score_def constant_logit_def example_store_def text_to_embed_def meta_values_to_embed_def tie_reversing_argsort_desc_def upt_rec)
  done

lemma example_run_ok:
  "run_ok example_ranker documents None None None"
  by (simp add: run_ok_def example_ranker_def effective_top_k_def effective_scale_score_def
      effective_calibration_factor_def)

text \<open>
  C2. The claim: the sort used by \<^verbatim>\<open>run\<close> is stable, so that two documents with equal scores
  leave in the order in which they came. \<^verbatim>\<open>run\<close> calls \<^verbatim>\<open>torch.sort\<close> without
  \<^verbatim>\<open>stable=True\<close>, and adds no ordering of its own: the output lists the documents in
  the order of the indices the sort returns. What holds is therefore conditional: when
  the sort is stable, the returned documents of each score are a prefix of the input
  documents of that score, in input order.
\<close>

theorem run_keeps_tie_order_of_stable_sort:
  fixes r :: "('dev, 'kw) ranker" and h :: "'a store"
  assumes "sorts_stably torch_sort"
    and "run_ok r documents tk ss cf"
  shows "\<exists>h' out.
     run r torch_sort logit h query documents tk ss cf th = Inr (h', out)
     \<and> (\<forall>s. prefix (filter (\<lambda>a. score (h' a) = Some s) out)
                     (filter (\<lambda>a. score (h' a) = Some s) documents))"
  using sorts_stably_descending [OF assms(1)] assms(2)
proof (cases rule: run_cases [where logit = logit and query = query and h = h and th = th])
  case empty
  then show ?thesis by simp
next
  case ranked
  let ?g = "\<lambda>a. doc_score r logit query (effective_scale_score r ss)
                   (effective_calibration_factor r cf) (h a)"
  let ?h' = "scored h documents ?g"
  let ?ranked = "map ((!) documents) (torch_sort (map ?g documents))"
  let ?out = "take (nat (effective_top_k r tk))
                (threshold_filter ?h' (effective_score_threshold r th) ?ranked)"
  have st: "is_stable_argsort_desc (map ?g documents) (torch_sort (map ?g documents))"
    using assms(1) by (simp add: sorts_stably_def)
  have "prefix (filter (\<lambda>a. score (?h' a) = Some s) ?out)
          (filter (\<lambda>a. score (?h' a) = Some s) documents)" for s
  proof -
    have "prefix (filter (\<lambda>a. score (?h' a) = Some s) ?out)
            (filter (\<lambda>a. score (?h' a) = Some s)
               (threshold_filter ?h' (effective_score_threshold r th) ?ranked))"
      by (rule prefix_filter_take)
    also have "prefix \<dots> (filter (\<lambda>a. score (?h' a) = Some s) ?ranked)"
      by (rule filter_score_threshold_filter)
    also have "filter (\<lambda>a. score (?h' a) = Some s) ?ranked =
        filter (\<lambda>a. score (?h' a) = Some s) documents"
      by (rule filter_score_ranked [OF st])
    finally show ?thesis .
  qed
  with ranked(5) show ?thesis by blast
qed

theorem run_keeps_tie_order_of_stable_sort_witness:
  "sorts_stably stable_argsort_desc
   \<and> run_ok example_ranker [0, 1] None None None
   \<and> (\<exists>h' out.
        run example_ranker stable_argsort_desc constant_logit example_store ''city'' [0, 1]
          None None None None = Inr (h', out)
        \<and> (\<forall>s. prefix (filter (\<lambda>a. score (h' a) = Some s) out)
                        (filter (\<lambda>a. score (h' a) = Some s) [0, 1])))"
  using run_keeps_tie_order_of_stable_sort [OF stable_sorts_stably example_run_ok,
      where documents = "[0, 1]" and logit = constant_logit and h = example_store
        and query = "''city''" and th = None]
    stable_sorts_stably example_run_ok [of "[0, 1]"]
  by (intro conjI)

text \<open>
  A sort that keeps the promise of \<^verbatim>\<open>torch.sort(descending=True)\<close> but returns equal
  values in reverse order: documents 0 and 1 get the same score and leave as 1, 0.
\<close>

theorem run_tie_order_counterexample:
  "sorts_descending tie_reversing_argsort_desc
   \<and> returned (run example_ranker tie_reversing_argsort_desc constant_logit example_store
                 ''city'' [0, 1] None None None None)
       = Inr [(1, Some (1 / 2)), (0, Some (1 / 2))]"
  by (intro conjI tie_reversing_sorts example_tie_run)

subsection \<open>Scaling\<close>

lemma set_ranked_subset:
  assumes "is_argsort_desc (map g documents) idxs"
  shows "set (take k (threshold_filter h th (map ((!) documents) idxs))) \<subseteq> set documents"
proof -
  have "set (take k (threshold_filter h th (map ((!) documents) idxs)))
      \<subseteq> set (threshold_filter h th (map ((!) documents) idxs))"
    by (rule set_take_subset)
  also have "\<dots> \<subseteq> set (map ((!) documents) idxs)"
    by (rule set_threshold_filter)
  also have "\<dots> = set documents"
    using nth_image_argsort [OF assms] by simp
  finally show ?thesis .
qed

text \<open>
  C3. Score scaling is optional: when the effective \<^verbatim>\<open>scale_score\<close> holds, the score of
  every returned document is \<^verbatim>\<open>sigmoid(logit * calibration_factor)\<close> with the effective
  factor (which is then present); otherwise it is the raw logit. The effective values are
  the per-call arguments where they are truthy and the configured ones otherwise.
\<close>

theorem run_score_scaling:
  fixes r :: "('dev, 'kw) ranker" and h :: "'a store"
  assumes "sorts_descending torch_sort"
    and "run_ok r documents tk ss cf"
  shows "\<exists>h' out.
     run r torch_sort logit h query documents tk ss cf th = Inr (h', out)
     \<and> (\<forall>a \<in> set out.
          if effective_scale_score r ss
          then \<exists>c. effective_calibration_factor r cf = Some c
                 \<and> score (h' a) =
                     Some (sigmoid (logit (query_prefix r @ query)
                                      (document_prefix r @ text_to_embed r (h a)) * c))
          else score (h' a) =
                 Some (logit (query_prefix r @ query)
                         (document_prefix r @ text_to_embed r (h a))))"
  using assms
proof (cases rule: run_cases [where logit = logit and query = query and h = h and th = th])
  case empty
  then show ?thesis by simp
next
  case ranked
  let ?g = "\<lambda>a. doc_score r logit query (effective_scale_score r ss)
                   (effective_calibration_factor r cf) (h a)"
  let ?h' = "scored h documents ?g"
  let ?out = "take (nat (effective_top_k r tk))
                (threshold_filter ?h' (effective_score_threshold r th)
                   (map ((!) documents) (torch_sort (map ?g documents))))"
  have sub: "set ?out \<subseteq> set documents"
    by (rule set_ranked_subset [OF ranked(4)])
  have "if effective_scale_score r ss
          then \<exists>c. effective_calibration_factor r cf = Some c
                 \<and> score (?h' a) =
                     Some (sigmoid (logit (query_prefix r @ query)
                                      (document_prefix r @ text_to_embed r (h a)) * c))
          else score (?h' a) =
                 Some (logit (query_prefix r @ query)
                         (document_prefix r @ text_to_embed r (h a)))"
    if "a \<in> set ?out" for a
  proof -
    from that sub have "a \<in> set documents" by blast
    then have sc: "score (?h' a) = Some (?g a)"
      by (rule score_scored)
    show ?thesis
    proof (cases "effective_scale_score r ss")
      case True
      with ranked(3) obtain c where "effective_calibration_factor r cf = Some c"
        by blast
      with True sc show ?thesis
        by (simp add: doc_score_def)
    next
      case False
      with sc show ?thesis
        by (simp add: doc_score_def)
    qed
  qed
  with ranked(5) show ?thesis by blast
qed

theorem run_score_scaling_witness:
  "sorts_descending stable_argsort_desc
   \<and> run_ok example_ranker [0, 1, 2] None (Some True) (Some 2)
   \<and> (\<exists>h' out.
        run example_ranker stable_argsort_desc example_logit example_store ''city'' [0, 1, 2]
          None (Some True) (Some 2) None = Inr (h', out)
        \<and> (\<forall>a \<in> set out.
             score (h' a) =
               Some (sigmoid (example_logit (query_prefix example_ranker @ ''city'')
                                (document_prefix example_ranker
                                   @ text_to_embed example_ranker (example_store a)) * 2))))"
proof -
  have sc: "effective_scale_score example_ranker (Some True)"
    by (simp add: effective_scale_score_def)
  have cf: "effective_calibration_factor example_ranker (Some 2) = Some 2"
    by (simp add: effective_calibration_factor_def)
  have ok: "run_ok example_ranker [0, 1, 2] None (Some True) (Some 2)"
    by (simp add: run_ok_def effective_scale_score_def effective_calibration_factor_def
        effective_top_k_def example_ranker_def)
  show ?thesis
    using run_score_scaling [OF stable_sorts ok, where logit = example_logit
        and h = example_store and query = "''city''" and th = None] stable_sorts ok
    by (simp add: sc cf)
qed

subsection \<open>Threshold and truncation\<close>

lemma score_ge_eq: "score_ge h t = (\<lambda>a. \<exists>s. score (h a) = Some s \<and> t \<le> s)"
  by (rule ext) (simp add: score_ge_def split: option.splits)

lemma scores_of_scored:
  assumes "set xs \<subseteq> set documents"
  shows "map (\<lambda>a. score (scored h documents g a)) xs = map Some (map g xs)"
  using assms by (induction xs) (simp_all add: score_scored)

lemma half_le_sigmoid_iff [simp]: "1 \<le> sigmoid x * 2 \<longleftrightarrow> 0 \<le> x"
proof -
  have "1 \<le> sigmoid x * 2 \<longleftrightarrow> 1 / 2 \<le> sigmoid x"
    by (simp add: field_simps)
  also have "\<dots> \<longleftrightarrow> sigmoid 0 \<le> sigmoid x"
    by (simp only: sigmoid_zero)
  also have "\<dots> \<longleftrightarrow> 0 \<le> x"
    by (rule sigmoid_le_iff)
  finally show ?thesis .
qed

lemma example_threshold_run:
  "returned (run example_ranker stable_argsort_desc example_logit example_store ''city''
               [0, 1, 2] None None None (Some (1 / 2)))
     = Inr [(1, Some (sigmoid 8)), (2, Some (sigmoid 2))]"
  apply (subst run_nonempty [OF stable_sorts])
      apply (simp_all add: example_ranker_def effective_top_k_def effective_scale_score_def
        effective_calibration_factor_def)
  apply (simp add: returned_def scored_def threshold_filter_def score_ge_def
      effective_score_threshold_def doc_score_def example_logit_def example_store_def
      text_to_embed_def meta_values_to_embed_def stable_argsort_desc_def upt_rec)
  done

text \<open>
  C4. When a threshold is in effect (the per-call one, or the configured one when the call
  passes \<^verbatim>\<open>None\<close>), the result is the first \<^verbatim>\<open>top_k\<close> entries of the filtered ranked list:
  \<open>ranked\<close> holds every input document once per occurrence, scored and in descending
  order; the filter keeps exactly the documents whose score is at least the threshold;
  the truncation comes after the filter.
\<close>

theorem run_threshold_filter:
  fixes r :: "('dev, 'kw) ranker" and h :: "'a store"
  assumes "sorts_descending torch_sort"
    and "run_ok r documents tk ss cf"
    and "effective_score_threshold r th = Some t"
  shows "\<exists>h' ranked scores.
     mset ranked = mset documents
     \<and> map (\<lambda>a. score (h' a)) ranked = map Some scores
     \<and> sorted_wrt (\<lambda>x y. y \<le> x) scores
     \<and> run r torch_sort logit h query documents tk ss cf th =
         Inr (h', take (nat (effective_top_k r tk))
                    (filter (\<lambda>a. \<exists>s. score (h' a) = Some s \<and> t \<le> s) ranked))"
  using assms(1,2)
proof (cases rule: run_cases [where logit = logit and query = query and h = h and th = th])
  case empty
  then have "mset [] = mset documents
     \<and> map (\<lambda>a. score (h a)) [] = map Some ([] :: real list)
     \<and> sorted_wrt (\<lambda>x y. y \<le> x) ([] :: real list)
     \<and> run r torch_sort logit h query documents tk ss cf th =
         Inr (h, take (nat (effective_top_k r tk))
                    (filter (\<lambda>a. \<exists>s. score (h a) = Some s \<and> t \<le> s) []))"
    by simp
  then show ?thesis by blast
next
  case ranked
  let ?g = "\<lambda>a. doc_score r logit query (effective_scale_score r ss)
                   (effective_calibration_factor r cf) (h a)"
  let ?h' = "scored h documents ?g"
  let ?ranked = "map ((!) documents) (torch_sort (map ?g documents))"
  have m: "mset ?ranked = mset documents"
    by (rule mset_ranked [OF ranked(4)])
  then have "set ?ranked = set documents"
    by (rule mset_eq_setD)
  then have sc: "map (\<lambda>a. score (?h' a)) ?ranked = map Some (map ?g ?ranked)"
    by (intro scores_of_scored) simp
  have "sorted_wrt (\<lambda>a b. ?g b \<le> ?g a) ?ranked"
    by (rule sorted_ranked [OF ranked(4)])
  then have so: "sorted_wrt (\<lambda>x y. y \<le> x) (map ?g ?ranked)"
    by (simp add: sorted_wrt_map)
  have "threshold_filter ?h' (effective_score_threshold r th) ?ranked =
      filter (\<lambda>a. \<exists>s. score (?h' a) = Some s \<and> t \<le> s) ?ranked"
    using assms(3) by (simp add: threshold_filter_def score_ge_eq)
  with ranked(5) have "run r torch_sort logit h query documents tk ss cf th =
         Inr (?h', take (nat (effective_top_k r tk))
                    (filter (\<lambda>a. \<exists>s. score (?h' a) = Some s \<and> t \<le> s) ?ranked))"
    by simp
  with m sc so show ?thesis by blast
qed

theorem run_threshold_filter_witness:
  "sorts_descending stable_argsort_desc
   \<and> run_ok example_ranker [0, 1, 2] None None None
   \<and> effective_score_threshold example_ranker (Some (1 / 2)) = Some (1 / 2)
   \<and> (\<exists>h' ranked scores.
        mset ranked = mset [0, 1, 2]
        \<and> map (\<lambda>a. score (h' a)) ranked = map Some scores
        \<and> sorted_wrt (\<lambda>x y. y \<le> x) scores
        \<and> run example_ranker stable_argsort_desc example_logit example_store ''city''
             [0, 1, 2] None None None (Some (1 / 2)) =
            Inr (h', take (nat (effective_top_k example_ranker None))
                       (filter (\<lambda>a. \<exists>s. score (h' a) = Some s \<and> 1 / 2 \<le> s) ranked)))"
proof -
  have th: "effective_score_threshold example_ranker (Some (1 / 2)) = Some (1 / 2)"
    by (simp add: effective_score_threshold_def)
  show ?thesis
    using run_threshold_filter [OF stable_sorts example_run_ok th,
        where documents = "[0, 1, 2]" and logit = example_logit and h = example_store
          and query = "''city''"]
      stable_sorts example_run_ok [of "[0, 1, 2]"] th
    by (intro conjI)
qed




subsection \<open>Text pairs\<close>

lemma meta_values_to_embed_spec:
  "meta_values_to_embed r doc =
     map py_str (embedded_meta_values (meta_fields_to_embed r) (meta doc))"
proof -
  have "[py_str (the (m key)). key \<leftarrow> keys, (case m key of None \<Rightarrow> False | Some v \<Rightarrow> truthy v)] =
      map py_str (filter truthy (List.map_filter m keys))" for m :: "string \<rightharpoonup> pyval" and keys
    by (induction keys) (auto simp: List.map_filter_simps split: option.splits)
  then show ?thesis
    by (simp add: meta_values_to_embed_def embedded_meta_values_def)
qed

lemma text_to_embed_spec: "text_to_embed r doc = spec_text r doc"
proof -
  have "(case content doc of None \<Rightarrow> [] | Some c \<Rightarrow> if c = [] then [] else c) =
      (case content doc of None \<Rightarrow> [] | Some c \<Rightarrow> c)"
    by (simp split: option.splits)
  then show ?thesis
    by (simp add: text_to_embed_def spec_text_def meta_values_to_embed_spec)
qed

lemma example_spec_text:
  "map (\<lambda>doc. (query_prefix example_ranker @ ''city'',
              document_prefix example_ranker @ spec_text example_ranker (example_store doc)))
     [0, 1, 2] =
   [(''city'', ''Paris''), (''city'', ''Berlin''), (''city'', ''Bavaria'' @ [CHR 0x0A] @ ''Munich'')]"
  by (simp add: example_defs spec_text_def embedded_meta_values_def List.map_filter_simps)

text \<open>
  C6. The list of pairs built for scoring holds, for every document in order, the pair of
  \<^verbatim>\<open>query_prefix + query\<close> and \<^verbatim>\<open>document_prefix + text\<close>, where the text is \<open>spec_text\<close>,
  the one the description words: the truthy values of the configured meta fields that
  are present, as strings, followed by the content or the empty string, joined by the
  separator.
\<close>

theorem query_doc_pairs_spec:
  "query_doc_pairs r query h documents [] =
     map (\<lambda>doc. (query_prefix r @ query, document_prefix r @ spec_text r (h doc))) documents"
  by (simp add: query_doc_pairs_acc text_to_embed_spec)

theorem query_doc_pairs_spec_witness:
  "query_doc_pairs example_ranker ''city'' example_store [0, 1, 2] [] =
     [(''city'', ''Paris''), (''city'', ''Berlin''), (''city'', ''Bavaria'' @ [CHR 0x0A] @ ''Munich'')]"
  using query_doc_pairs_spec [of example_ranker "''city''" example_store "[0, 1, 2]"]
  unfolding example_spec_text .

subsection \<open>Repeated calls\<close>

lemma text_to_embed_same:
  "content d1 = content d2 \<Longrightarrow> meta d1 = meta d2 \<Longrightarrow> text_to_embed r d1 = text_to_embed r d2"
  by (simp add: text_to_embed_def meta_values_to_embed_def cong: if_cong)

lemma query_doc_pairs_same:
  assumes "same_texts h1 h2 documents"
  shows "query_doc_pairs r query h1 documents [] = query_doc_pairs r query h2 documents []"
  using assms by (auto simp: query_doc_pairs_acc same_texts_def intro: text_to_embed_same)

lemma threshold_filter_same:
  assumes "\<forall>a \<in> set out. score (h1 a) = score (h2 a)"
  shows "threshold_filter h1 th out = threshold_filter h2 th out"
  using assms by (cases th) (auto simp: threshold_filter_def score_ge_def intro!: filter_cong)

lemma rank_documents_same:
  fixes h1 :: "'a store" and h2 :: "'b store"
  assumes "\<forall>a \<in> set acc. score (h1 a) = score (h2 a)"
  shows "rel_sum (=)
      (\<lambda>(h1', out1) (h2', out2). out1 = out2 \<and> (\<forall>a \<in> set out1. score (h1' a) = score (h2' a)))
      (rank_documents h1 documents scores idxs acc)
      (rank_documents h2 documents scores idxs acc)"
  using assms
proof (induction idxs arbitrary: h1 h2 acc)
  case Nil
  then show ?case by simp
next
  case (Cons i idxs)
  show ?case
  proof (cases "i < length scores \<and> i < length documents")
    case True
    let ?u1 = "h1((documents ! i) := (h1 (documents ! i))\<lparr>score := Some (scores ! i)\<rparr>)"
    let ?u2 = "h2((documents ! i) := (h2 (documents ! i))\<lparr>score := Some (scores ! i)\<rparr>)"
    have step1: "rank_documents h1 documents scores (i # idxs) acc =
        rank_documents ?u1 documents scores idxs (acc @ [documents ! i])"
      using True by simp
    have step2: "rank_documents h2 documents scores (i # idxs) acc =
        rank_documents ?u2 documents scores idxs (acc @ [documents ! i])"
      using True by simp
    show ?thesis
      unfolding step1 step2
      by (rule Cons.IH) (use Cons.prems in simp)
  next
    case False
    have "rank_documents h1 documents scores (i # idxs) acc = Inl IndexError"
      "rank_documents h2 documents scores (i # idxs) acc = Inl IndexError"
      by (simp_all only: rank_documents.simps False if_False)
    then show ?thesis by simp
  qed
qed

lemma returned_same:
  fixes h1 :: "'a store" and h2 :: "'b store"
  assumes "rel_sum (=)
      (\<lambda>(h1', out1) (h2', out2). out1 = out2 \<and> (\<forall>a \<in> set out1. score (h1' a) = score (h2' a)))
      res1 res2"
  shows "returned (case res1 of Inl e \<Rightarrow> Inl e
            | Inr (h', ranked_docs) \<Rightarrow> Inr (h', take k (threshold_filter h' t ranked_docs))) =
         returned (case res2 of Inl e \<Rightarrow> Inl e
            | Inr (h', ranked_docs) \<Rightarrow> Inr (h', take k (threshold_filter h' t ranked_docs)))"
  using assms
proof (cases res1)
  case (Inl e1)
  with assms have "res2 = Inl e1"
    by (cases res2) simp_all
  with Inl show ?thesis
    by (simp add: returned_def)
next
  case (Inr p1)
  with assms obtain p2 where r2: "res2 = Inr p2"
    and rel: "(\<lambda>(h1', out1) (h2', out2). out1 = out2
                 \<and> (\<forall>a \<in> set out1. score (h1' a) = score (h2' a))) p1 p2"
    by (cases res2) simp_all
  obtain h1' out1 where p1: "p1 = (h1', out1)" by (cases p1)
  obtain h2' out2 where p2: "p2 = (h2', out2)" by (cases p2)
  from rel have out: "out1 = out2" and sc: "\<forall>a \<in> set out2. score (h1' a) = score (h2' a)"
    by (simp_all add: p1 p2)
  have f: "threshold_filter h1' t out2 = threshold_filter h2' t out2"
    by (rule threshold_filter_same [OF sc])
  have "set (take k (threshold_filter h2' t out2)) \<subseteq> set out2"
    using set_take_subset set_threshold_filter by (rule subset_trans)
  with sc have "map (\<lambda>a. (a, score (h1' a))) (take k (threshold_filter h2' t out2)) =
      map (\<lambda>a. (a, score (h2' a))) (take k (threshold_filter h2' t out2))"
    by auto
  then show ?thesis
    by (simp add: Inr r2 p1 p2 returned_def f out)
qed

lemma example_same_texts: "same_texts example_store example_store_rescored [0, 1, 2]"
  by (simp add: same_texts_def example_store_rescored_def)

text \<open>
  C7. \<^verbatim>\<open>run\<close> is deterministic. With the scoring map and the sort fixed, two calls with the
  same configuration, query, list of documents and overrides return the same exception or
  the same documents with the same scores, whenever the listed documents have the same
  content and meta at both calls; the scores an earlier call has written into the objects
  have no influence.
\<close>

theorem run_deterministic:
  fixes r :: "('dev, 'kw) ranker" and h1 :: "'a store" and h2 :: "'b store"
  assumes "same_texts h1 h2 documents"
  shows "returned (run r torch_sort logit h1 query documents tk ss cf th) =
         returned (run r torch_sort logit h2 query documents tk ss cf th)"
proof -
  have p: "query_doc_pairs r query h1 documents [] = query_doc_pairs r query h2 documents []"
    by (rule query_doc_pairs_same [OF assms])
  define scores where "scores = similarity_scores logit (query_doc_pairs r query h2 documents [])
      (effective_scale_score r ss) (effective_calibration_factor r cf)"
  have "rel_sum (=)
      (\<lambda>(h1', out1) (h2', out2). out1 = out2 \<and> (\<forall>a \<in> set out1. score (h1' a) = score (h2' a)))
      (rank_documents h1 documents scores (torch_sort scores) [])
      (rank_documents h2 documents scores (torch_sort scores) [])"
    by (rule rank_documents_same) simp
  note returned_same [OF this, of "nat (effective_top_k r tk)" "effective_score_threshold r th"]
  then show ?thesis
    unfolding run_def p Let_def scores_def [symmetric]
    by (simp add: returned_def)
qed

theorem run_deterministic_witness:
  "same_texts example_store example_store_rescored [0, 1, 2]
   \<and> returned (run example_ranker stable_argsort_desc example_logit example_store ''city''
                  [0, 1, 2] None None None None) =
     returned (run example_ranker stable_argsort_desc example_logit example_store_rescored ''city''
                  [0, 1, 2] None None None None)"
  using run_deterministic [OF example_same_texts, where r = example_ranker
      and torch_sort = stable_argsort_desc and logit = example_logit and query = "''city''"
      and tk = None and ss = None and cf = None and th = None]
    example_same_texts
  by (intro conjI)

subsection \<open>Falsy overrides\<close>


lemma init_top_k_positive:
  "init hmd m d t k qp dp mf es sc cf st kw = Inr r \<Longrightarrow>
     0 < top_k r \<and> (scale_score r \<longrightarrow> calibration_factor r \<noteq> None)"
  by (auto simp: init_def split: if_splits)

lemma example_falsy_run:
  "returned (run example_ranker stable_argsort_desc example_logit example_store ''city''
               [0, 1, 2] (Some 0) (Some False) None None)
     = Inr [(1, Some (sigmoid 8)), (2, Some (sigmoid 2)), (0, Some (sigmoid (- 3)))]"
  apply (subst run_nonempty [OF stable_sorts])
      apply (simp_all add: example_ranker_def effective_top_k_def effective_scale_score_def
        effective_calibration_factor_def)
  apply (simp add: returned_def scored_def threshold_filter_def effective_score_threshold_def
      doc_score_def example_logit_def example_store_def text_to_embed_def
      meta_values_to_embed_def stable_argsort_desc_def upt_rec)
  done



subsection \<open>Mutation of the input documents\<close>

text \<open>
  C9. \<^verbatim>\<open>run\<close> mutates its input. After a call that raises nothing, every object of the
  input list holds its computed score in \<^verbatim>\<open>score\<close> and is otherwise unchanged, every other
  object is unchanged, and the returned list holds objects of the input list.
\<close>

theorem run_mutates_score_only:
  fixes r :: "('dev, 'kw) ranker" and h :: "'a store"
  assumes "sorts_descending torch_sort"
    and "run_ok r documents tk ss cf"
  shows "\<exists>h' out.
     run r torch_sort logit h query documents tk ss cf th = Inr (h', out)
     \<and> set out \<subseteq> set documents
     \<and> (\<forall>a. h' a =
          (if a \<in> set documents
           then (h a)\<lparr>score := Some (doc_score r logit query (effective_scale_score r ss)
                                        (effective_calibration_factor r cf) (h a))\<rparr>
           else h a))"
  using assms
proof (cases rule: run_cases [where logit = logit and query = query and h = h and th = th])
  case empty
  then have "run r torch_sort logit h query documents tk ss cf th = Inr (h, [])
     \<and> set ([] :: addr list) \<subseteq> set documents
     \<and> (\<forall>a. h a =
          (if a \<in> set documents
           then (h a)\<lparr>score := Some (doc_score r logit query (effective_scale_score r ss)
                                        (effective_calibration_factor r cf) (h a))\<rparr>
           else h a))"
    by simp
  then show ?thesis by blast
next
  case ranked
  let ?g = "\<lambda>a. doc_score r logit query (effective_scale_score r ss)
                   (effective_calibration_factor r cf) (h a)"
  let ?h' = "scored h documents ?g"
  let ?ranked = "map ((!) documents) (torch_sort (map ?g documents))"
  let ?out = "take (nat (effective_top_k r tk))
                (threshold_filter ?h' (effective_score_threshold r th) ?ranked)"
  have "set ?out \<subseteq> set documents"
    by (rule set_ranked_subset [OF ranked(4)])
  moreover have "\<forall>a. ?h' a = (if a \<in> set documents then (h a)\<lparr>score := Some (?g a)\<rparr> else h a)"
    by (simp add: scored_def)
  ultimately show ?thesis
    using ranked(5) by blast
qed

theorem run_mutates_score_only_witness:
  "sorts_descending stable_argsort_desc
   \<and> run_ok example_ranker [0, 1, 2] (Some 1) None None
   \<and> (\<exists>h' out.
        run example_ranker stable_argsort_desc example_logit example_store ''city'' [0, 1, 2]
          (Some 1) None None None = Inr (h', out)
        \<and> set out \<subseteq> set [0, 1, 2]
        \<and> (\<forall>a. h' a =
             (if a \<in> set [0, 1, 2]
              then (example_store a)\<lparr>score :=
                     Some (doc_score example_ranker example_logit ''city''
                             (effective_scale_score example_ranker None)
                             (effective_calibration_factor example_ranker None)
                             (example_store a))\<rparr>
              else example_store a)))"
proof -
  have ok: "run_ok example_ranker [0, 1, 2] (Some 1) None None"
    by (simp add: run_ok_def effective_scale_score_def effective_calibration_factor_def
        effective_top_k_def example_ranker_def)
  show ?thesis
    using run_mutates_score_only [OF stable_sorts ok, where logit = example_logit
        and h = example_store and query = "''city''" and th = None] stable_sorts ok
    by (intro conjI)
qed

subsection \<open>Serialization of the token\<close>

text \<open>
  C10. \<^verbatim>\<open>to_dict\<close> never serializes a string token: a string token is recorded as \<^verbatim>\<open>None\<close>,
  a boolean token and \<^verbatim>\<open>None\<close> are recorded unchanged, and so the recorded token is never a
  string.
\<close>

theorem to_dict_drops_string_token:
  "(case token r of
      TokStr s \<Rightarrow> ip_token (to_dict device_to_dict serialize_hf_model_kwargs r) = TokNone
    | TokNone \<Rightarrow> ip_token (to_dict device_to_dict serialize_hf_model_kwargs r) = TokNone
    | TokBool b \<Rightarrow> ip_token (to_dict device_to_dict serialize_hf_model_kwargs r) = TokBool b)
   \<and> (\<forall>s. ip_token (to_dict device_to_dict serialize_hf_model_kwargs r) \<noteq> TokStr s)"
  by (simp add: to_dict_def Let_def split: token.splits)

theorem to_dict_drops_string_token_witness:
  "token example_ranker = TokStr ''hf_secret''
   \<and> ip_token (to_dict id id example_ranker) = TokNone"
proof -
  have t: "token example_ranker = TokStr ''hf_secret''"
    by (simp add: example_ranker_def)
  show ?thesis
    using to_dict_drops_string_token [where r = example_ranker and device_to_dict = id
        and serialize_hf_model_kwargs = id] t
    by simp
qed

end
